theory Spec2Isabelle
  imports Main "HOL-Library.Multiset" "HOL-Library.AList"
begin

section \<open>The hand classifier of src/poker/js/evaluatePokerHand.js\<close>

text \<open>
  The JavaScript function \<open>evaluatePokerHand(hand)\<close> takes an array of card objects and
  returns one of ten category strings. Every local constant of the function body is a
  definition of the same name below, a function of the hand.

  Modelling decisions.
  \<^item> A card object has the properties \<open>suit\<close> (a string) and \<open>rank\<close> (a number) and
    possibly others that the function never reads: an extensible record, so that
    \<open>'a card_scheme\<close> is a card with further properties of type \<open>'a\<close>.
  \<^item> Ranks are integer-valued JavaScript numbers: \<open>int\<close>. On integers the comparator
    \<open>a - b\<close> and the test \<open>x - y !== 1\<close> are exact, including outside 1..13.
  \<^item> Suit strings are ASCII strings, as the four documented suits are, and
    \<open>toLowerCase\<close> lowers the letters A..Z and leaves every other character as it is.
    No general result below unfolds \<open>toLowerCase\<close>: each holds for any lowercasing.
  \<^item> An array is a list of any length; reading an index out of range gives
    \<open>undefined\<close> in JavaScript, here \<open>None\<close>.
  \<^item> A \<open>Map\<close> keeps its keys in insertion order: an association list, where \<open>set\<close>
    on a present key replaces the value in place and on a new key appends the entry.

  The definitions come in three layers. \<open>evaluatePokerHand\<close> is the body on cards as
  documented, with string suits. \<open>evaluatePokerHand_js\<close> is the function on card objects
  whose suit is any value, with the exception line 27 can throw. \<open>evaluatePokerHand_exec\<close>
  is the call in a store of objects, statement by statement, with every allocation and
  every write in place, and \<open>run_calls\<close> is a sequence of such calls.
\<close>

subsection \<open>Cards\<close>

record card =
  suit :: string
  rank :: int

subsection \<open>The built-in operations the function uses\<close>

text \<open>\<open>xs[i]\<close>: the element, or \<open>undefined\<close> (None) out of range.\<close>

definition js_index :: "'a list \<Rightarrow> nat \<Rightarrow> 'a option" where
  "js_index xs i = (if i < length xs then Some (xs ! i) else None)"

text \<open>\<open>String.prototype.toLowerCase\<close> on strings of 8-bit characters.\<close>

definition lower_char :: "char \<Rightarrow> char" where
  "lower_char c =
     (let n = (of_char c :: nat) in if 65 \<le> n \<and> n \<le> 90 then char_of (n + 32) else c)"

definition toLowerCase :: "string \<Rightarrow> string" where
  "toLowerCase s = map lower_char s"

text \<open>\<open>Map.prototype.get\<close>, \<open>set\<close> and \<open>values\<close> on an insertion-ordered map.\<close>

definition Map_get :: "('k \<times> 'v) list \<Rightarrow> 'k \<Rightarrow> 'v option" where
  "Map_get m k = map_of m k"

definition Map_set :: "('k \<times> 'v) list \<Rightarrow> 'k \<Rightarrow> 'v \<Rightarrow> ('k \<times> 'v) list" where
  "Map_set m k v = AList.update k v m"

definition Map_values :: "('k \<times> 'v) list \<Rightarrow> 'v list" where
  "Map_values m = map snd m"

text \<open>\<open>x || 0\<close> for \<open>x\<close> a count or \<open>undefined\<close>.\<close>

definition or_zero :: "nat option \<Rightarrow> nat" where
  "or_zero x = (case x of None \<Rightarrow> 0 | Some c \<Rightarrow> (if c = 0 then 0 else c))"

text \<open>\<open>xs.sort((a, b) => a - b)\<close> and \<open>xs.sort((a, b) => b - a)\<close> on numbers.\<close>

definition sort_ascending :: "'a::linorder list \<Rightarrow> 'a list" where
  "sort_ascending xs = sort xs"

definition sort_descending :: "'a::linorder list \<Rightarrow> 'a list" where
  "sort_descending xs = rev (sort xs)"

text \<open>\<open>[...new Set(xs)]\<close>: the elements of \<open>xs\<close> in order of first occurrence.\<close>

definition Set_add :: "'a list \<Rightarrow> 'a \<Rightarrow> 'a list" where
  "Set_add s x = (if x \<in> set s then s else s @ [x])"

definition Set_of_array :: "'a list \<Rightarrow> 'a list" where
  "Set_of_array xs = fold (\<lambda>x s. Set_add s x) xs []"

subsection \<open>The locals of evaluatePokerHand\<close>

definition ranks :: "'a card_scheme list \<Rightarrow> int list" where
  "ranks hand = map (\<lambda>card. rank card) hand"

definition suits :: "'a card_scheme list \<Rightarrow> string list" where
  "suits hand = map (\<lambda>card. toLowerCase (suit card)) hand"

text \<open>The loop \<open>for (const rank of ranks) rankCounts.set(rank, (rankCounts.get(rank) || 0) + 1)\<close>.\<close>

definition count_step :: "int \<Rightarrow> (int \<times> nat) list \<Rightarrow> (int \<times> nat) list" where
  "count_step r m = Map_set m r (or_zero (Map_get m r) + 1)"

definition rankCounts :: "'a card_scheme list \<Rightarrow> (int \<times> nat) list" where
  "rankCounts hand = fold count_step (ranks hand) []"

definition descendingOrder :: "'a card_scheme list \<Rightarrow> nat list" where
  "descendingOrder hand = sort_descending (Map_values (rankCounts hand))"

definition numPairs :: "'a card_scheme list \<Rightarrow> nat" where
  "numPairs hand = length (filter (\<lambda>v. v = 2) (Map_values (rankCounts hand)))"

definition hasThree :: "'a card_scheme list \<Rightarrow> bool" where
  "hasThree hand = (js_index (descendingOrder hand) 0 = Some 3)"

definition hasFour :: "'a card_scheme list \<Rightarrow> bool" where
  "hasFour hand = (js_index (descendingOrder hand) 0 = Some 4)"

definition isFlush :: "'a card_scheme list \<Rightarrow> bool" where
  "isFlush hand = list_all (\<lambda>s. Some s = js_index (suits hand) 0) (suits hand)"

definition aceHigh :: "int \<Rightarrow> int" where
  "aceHigh r = (if r = 1 then 14 else r)"

definition ranksAceHigh :: "'a card_scheme list \<Rightarrow> int list" where
  "ranksAceHigh hand = sort_ascending (map aceHigh (ranks hand))"

definition uniqueAceHigh :: "'a card_scheme list \<Rightarrow> int list" where
  "uniqueAceHigh hand = Set_of_array (ranksAceHigh hand)"

text \<open>The loop of \<open>isConsecutive\<close>, from \<open>i = 1\<close>: each element against the one before.\<close>

fun consecutive_loop :: "int list \<Rightarrow> bool" where
  "consecutive_loop (x # y # zs) = (if y - x \<noteq> 1 then False else consecutive_loop (y # zs))"
| "consecutive_loop _ = True"

definition isConsecutive :: "int list \<Rightarrow> bool" where
  "isConsecutive sortedRanks =
     (if length sortedRanks \<noteq> 5 then False else consecutive_loop sortedRanks)"

definition sortedCards :: "'a card_scheme list \<Rightarrow> int list" where
  "sortedCards hand = sort_ascending (ranks hand)"

definition wheelPattern :: "int list" where
  "wheelPattern = [1, 2, 3, 4, 5]"

text \<open>
  The wheel loop runs over \<open>sortedCards\<close>; past the end of \<open>wheelPattern\<close> the pattern
  reads \<open>undefined\<close>, which differs from every number.
\<close>

fun wheel_loop :: "int list \<Rightarrow> int list \<Rightarrow> bool" where
  "wheel_loop [] pat = True"
| "wheel_loop (c # cs) [] = False"
| "wheel_loop (c # cs) (p # ps) = (if c \<noteq> p then False else wheel_loop cs ps)"

definition wheelStraight :: "'a card_scheme list \<Rightarrow> bool" where
  "wheelStraight hand = wheel_loop (sortedCards hand) wheelPattern"

definition isStraight :: "'a card_scheme list \<Rightarrow> bool" where
  "isStraight hand =
     ((length (uniqueAceHigh hand) = 5 \<and> isConsecutive (uniqueAceHigh hand))
      \<or> wheelStraight hand)"

definition straightHigh :: "'a card_scheme list \<Rightarrow> int option" where
  "straightHigh hand = (if wheelStraight hand then Some 5 else js_index (ranksAceHigh hand) 4)"

subsection \<open>The function\<close>

definition evaluatePokerHand :: "'a card_scheme list \<Rightarrow> string" where
  "evaluatePokerHand hand =
     (if isStraight hand \<and> isFlush hand then
        (if straightHigh hand = Some 14 \<and> js_index (ranksAceHigh hand) 0 = Some 10
         then ''royalflush'' else ''straightflush'')
      else if hasFour hand then ''fourofakind''
      else if hasThree hand \<and> numPairs hand = 1 then ''fullhouse''
      else if isFlush hand then ''flush''
      else if isStraight hand then ''straight''
      else if hasThree hand then ''threeofakind''
      else if numPairs hand = 2 then ''twopair''
      else if numPairs hand = 1 then ''pair''
      else ''highcard'')"

subsection \<open>The specification's vocabulary\<close>


text \<open>
  The Category Resolver as the specification words it: nine conditions in priority order,
  each with its category, and the first condition that holds decides.
\<close>

definition spec_resolver_table :: "'a card_scheme list \<Rightarrow> (bool \<times> string) list" where
  "spec_resolver_table hand =
     [(isStraight hand \<and> isFlush hand,
         if straightHigh hand = Some 14 \<and> js_index (ranksAceHigh hand) 0 = Some 10
         then ''royalflush'' else ''straightflush''),
      (hasFour hand, ''fourofakind''),
      (hasThree hand \<and> numPairs hand = 1, ''fullhouse''),
      (isFlush hand, ''flush''),
      (isStraight hand, ''straight''),
      (hasThree hand, ''threeofakind''),
      (numPairs hand = 2, ''twopair''),
      (numPairs hand = 1, ''pair''),
      (True, ''highcard'')]"

definition spec_first_match :: "(bool \<times> string) list \<Rightarrow> string option" where
  "spec_first_match table = map_option snd (find fst table)"

text \<open>
  The two paths of the Sequence Detector as the specification words them, on the raw
  ranks: map 1 to 14, sort ascending, deduplicate, then five values with consecutive
  pairs differing by exactly 1; and the raw ranks sorted ascending equal to 1..5.
\<close>

definition spec_ace_high_path :: "int list \<Rightarrow> bool" where
  "spec_ace_high_path rs =
     (let d = remdups (sort (map (\<lambda>r. if r = 1 then 14 else r) rs))
      in length d = 5 \<and> (\<forall>i \<in> set [0..<4]. d ! (i + 1) - d ! i = 1))"

definition spec_wheel_path :: "int list \<Rightarrow> bool" where
  "spec_wheel_path rs = (sort rs = [1, 2, 3, 4, 5])"

text \<open>All suits of the hand agree after lowercasing.\<close>

definition spec_all_suits_equal :: "'a card_scheme list \<Rightarrow> bool" where
  "spec_all_suits_equal hand =
     (\<forall>c \<in> set hand. \<forall>d \<in> set hand. toLowerCase (suit c) = toLowerCase (suit d))"

text \<open>No two cards of the hand agree in both rank and suit string.\<close>

definition no_duplicate_cards :: "'a card_scheme list \<Rightarrow> bool" where
  "no_duplicate_cards hand = distinct (map (\<lambda>c. (rank c, suit c)) hand)"

text \<open>Every count of the rank-to-count mapping lies between 1 and 4.\<close>

definition counts_in_range :: "'a card_scheme list \<Rightarrow> bool" where
  "counts_in_range hand = list_all (\<lambda>v. 1 \<le> v \<and> v \<le> 4) (Map_values (rankCounts hand))"

subsection \<open>Example hands\<close>

definition mk_card :: "int \<Rightarrow> string \<Rightarrow> card" where
  "mk_card r s = \<lparr>suit = s, rank = r\<rparr>"

definition wheel_mixed :: "card list" where
  "wheel_mixed =
     [mk_card 1 ''club'', mk_card 2 ''diamond'', mk_card 3 ''spade'', mk_card 4 ''heart'',
      mk_card 5 ''club'']"

definition wheel_clubs :: "card list" where
  "wheel_clubs =
     [mk_card 1 ''club'', mk_card 2 ''club'', mk_card 3 ''club'', mk_card 4 ''club'',
      mk_card 5 ''club'']"

definition royal_spades :: "card list" where
  "royal_spades =
     [mk_card 10 ''spade'', mk_card 11 ''spade'', mk_card 12 ''spade'', mk_card 13 ''spade'',
      mk_card 1 ''spade'']"

definition mixed_case_clubs :: "card list" where
  "mixed_case_clubs =
     [mk_card 2 ''Club'', mk_card 5 ''club'', mk_card 9 ''CLUB'', mk_card 11 ''cLuB'',
      mk_card 13 ''club'']"

definition five_sevens :: "card list" where
  "five_sevens =
     [mk_card 7 ''club'', mk_card 7 ''spade'', mk_card 7 ''diamond'', mk_card 7 ''heart'',
      mk_card 7 ''star'']"

definition four_sevens :: "card list" where
  "four_sevens =
     [mk_card 7 ''club'', mk_card 7 ''spade'', mk_card 7 ''diamond'', mk_card 7 ''heart'',
      mk_card 2 ''club'']"

definition sevens_last :: "card list" where
  "sevens_last =
     [mk_card 2 ''club'', mk_card 7 ''heart'', mk_card 7 ''club'', mk_card 7 ''diamond'',
      mk_card 7 ''spade'']"

definition wheel_other_suits :: "card list" where
  "wheel_other_suits =
     [mk_card 5 ''moon'', mk_card 4 ''SUN'', mk_card 3 ''star'', mk_card 2 ''joker'',
      mk_card 1 ''spade'']"

section \<open>Calls on arbitrary card objects, and calls in a store\<close>

subsection \<open>Card objects whose suit may fail to be a string\<close>

text \<open>
  The typed record above describes a card as the documentation does. A caller can pass
  any object: the suit property may hold any value. Line 27 calls \<open>toLowerCase\<close> on it,
  which exists on strings only, so the call throws a \<open>TypeError\<close> at the first card
  whose suit is not a string. Nothing else in the body can throw. \<open>JSRef\<close> is a
  reference to an object of the store below.
\<close>

datatype js_value =
    JSUndefined
  | JSNull
  | JSBoolean bool
  | JSNumber int
  | JSString string
  | JSRef nat

datatype js_error = TypeError

record js_card =
  js_suit :: js_value
  js_rank :: int

text \<open>\<open>xs.map(f)\<close> where \<open>f\<close> may throw: the first exception ends the call.\<close>

fun map_throwing :: "('a \<Rightarrow> js_error + 'b) \<Rightarrow> 'a list \<Rightarrow> js_error + 'b list" where
  "map_throwing f [] = Inr []"
| "map_throwing f (x # xs) =
     (case f x of
        Inl e \<Rightarrow> Inl e
      | Inr y \<Rightarrow> (case map_throwing f xs of Inl e \<Rightarrow> Inl e | Inr ys \<Rightarrow> Inr (y # ys)))"

text \<open>\<open>v.toLowerCase()\<close> for any value \<open>v\<close>.\<close>

definition call_toLowerCase :: "js_value \<Rightarrow> js_error + string" where
  "call_toLowerCase v = (case v of JSString s \<Rightarrow> Inr (toLowerCase s) | _ \<Rightarrow> Inl TypeError)"

text \<open>A card object seen as a typed card, when line 27 does not throw on it.\<close>

definition as_card :: "js_card \<Rightarrow> js_error + card" where
  "as_card c =
     (case js_suit c of
        JSString s \<Rightarrow> Inr \<lparr>suit = s, rank = js_rank c\<rparr>
      | _ \<Rightarrow> Inl TypeError)"

text \<open>
  The function on an array of arbitrary card objects: the \<open>TypeError\<close> of line 27, or
  the body on cards whose suits are strings.
\<close>

definition evaluatePokerHand_js :: "js_card list \<Rightarrow> js_error + string" where
  "evaluatePokerHand_js hand =
     (case map_throwing as_card hand of
        Inl e \<Rightarrow> Inl e
      | Inr cards \<Rightarrow> Inr (evaluatePokerHand cards))"


subsection \<open>The store\<close>

text \<open>
  JavaScript arrays, maps, sets and card objects live in a store and are passed by
  reference; \<open>sort\<close> and \<open>Map.set\<close> change the object they are called on. The store is a
  list of objects, an address is an index into it, and a new object goes to the end.
  The array the caller passes holds arbitrary values, among them references to card
  objects; the arrays the body creates hold numbers, counts or strings.
\<close>

datatype obj =
    ValueArray "js_value list"
  | CardObj js_card
  | Numbers "int list"
  | Counts "nat list"
  | Strings "string list"
  | MapObj "(int \<times> nat) list"
  | SetObj "int list"

type_synonym heap = "obj list"

definition alloc :: "obj \<Rightarrow> heap \<Rightarrow> nat \<times> heap" where
  "alloc ob h = (length h, h @ [ob])"

definition store :: "nat \<Rightarrow> obj \<Rightarrow> heap \<Rightarrow> heap" where
  "store a ob h = h[a := ob]"

text \<open>
  Reading an object the body itself created, at the type it was created with; the
  empty default is for addresses that hold something else, which the body never reads.
\<close>

definition numbers_at :: "heap \<Rightarrow> nat \<Rightarrow> int list" where
  "numbers_at h a = (case js_index h a of Some (Numbers xs) \<Rightarrow> xs | _ \<Rightarrow> [])"

definition counts_at :: "heap \<Rightarrow> nat \<Rightarrow> nat list" where
  "counts_at h a = (case js_index h a of Some (Counts xs) \<Rightarrow> xs | _ \<Rightarrow> [])"

definition strings_at :: "heap \<Rightarrow> nat \<Rightarrow> string list" where
  "strings_at h a = (case js_index h a of Some (Strings xs) \<Rightarrow> xs | _ \<Rightarrow> [])"

definition map_at :: "heap \<Rightarrow> nat \<Rightarrow> (int \<times> nat) list" where
  "map_at h a = (case js_index h a of Some (MapObj m) \<Rightarrow> m | _ \<Rightarrow> [])"

definition set_at :: "heap \<Rightarrow> nat \<Rightarrow> int list" where
  "set_at h a = (case js_index h a of Some (SetObj s) \<Rightarrow> s | _ \<Rightarrow> [])"

text \<open>
  The elements of the array at an address. Every array of the store is an array to the
  caller, also the arrays an earlier call created; maps, sets and card objects have no
  \<open>map\<close> method.
\<close>

definition array_at :: "heap \<Rightarrow> nat \<Rightarrow> js_value list option" where
  "array_at h a =
     (case js_index h a of
        Some (ValueArray vs) \<Rightarrow> Some vs
      | Some (Numbers xs) \<Rightarrow> Some (map JSNumber xs)
      | Some (Counts xs) \<Rightarrow> Some (map (\<lambda>n. JSNumber (int n)) xs)
      | Some (Strings xs) \<Rightarrow> Some (map JSString xs)
      | _ \<Rightarrow> None)"

text \<open>
  An element of the caller's array as a card object. Reading \<open>card.rank\<close> of
  \<open>undefined\<close> or \<open>null\<close> throws at line 26; any other value that is not a reference to
  a card object has no string \<open>suit\<close>, and line 27 throws. The model gives the
  \<open>TypeError\<close> for both before line 26 allocates, so in the second case it leaves out
  the array of ranks, which nothing refers to. A card object has an integer \<open>rank\<close>;
  objects with another rank are outside the model.
\<close>

definition card_of_element :: "heap \<Rightarrow> js_value \<Rightarrow> js_error + js_card" where
  "card_of_element h v =
     (case v of
        JSRef a \<Rightarrow> (case js_index h a of Some (CardObj c) \<Rightarrow> Inr c | _ \<Rightarrow> Inl TypeError)
      | _ \<Rightarrow> Inl TypeError)"

text \<open>One round of the counting loop, on the map object at address \<open>m\<close>.\<close>

definition count_in_place :: "nat \<Rightarrow> int \<Rightarrow> heap \<Rightarrow> heap" where
  "count_in_place m r h =
     store m (MapObj (Map_set (map_at h m) r (or_zero (Map_get (map_at h m) r) + 1))) h"

text \<open>
  The call \<open>evaluatePokerHand(hand)\<close> in a store, statement by statement: the result or
  the exception, and the store after the call. \<open>hand\<close> is the address of the array.
\<close>

definition evaluatePokerHand_exec :: "nat \<Rightarrow> heap \<Rightarrow> (js_error + string) \<times> heap" where
  "evaluatePokerHand_exec hand h0 =
     (case array_at h0 hand of
        Some elements \<Rightarrow>
          (case map_throwing (card_of_element h0) elements of
             Inl e \<Rightarrow> (Inl e, h0)
           | Inr cards \<Rightarrow>
          (let (ranks_a, h1) = alloc (Numbers (map js_rank cards)) h0 in
           case map_throwing (\<lambda>card. call_toLowerCase (js_suit card)) cards of
             Inl e \<Rightarrow> (Inl e, h1)
           | Inr lowered \<Rightarrow>
              (let (suits_a, h2) = alloc (Strings lowered) h1;
                   (rankCounts_a, h3) = alloc (MapObj []) h2;
                   h4 = fold (count_in_place rankCounts_a) (numbers_at h3 ranks_a) h3;
                   (descendingOrder_a, h5) =
                      alloc (Counts (Map_values (map_at h4 rankCounts_a))) h4;
                   h6 = store descendingOrder_a
                          (Counts (sort_descending (counts_at h5 descendingOrder_a))) h5;
                   (values_a, h7) = alloc (Counts (Map_values (map_at h6 rankCounts_a))) h6;
                   (pairs_a, h8) =
                      alloc (Counts (filter (\<lambda>v. v = 2) (counts_at h7 values_a))) h7;
                   numPairs_v = length (counts_at h8 pairs_a);
                   hasThree_v = (js_index (counts_at h8 descendingOrder_a) 0 = Some 3);
                   hasFour_v = (js_index (counts_at h8 descendingOrder_a) 0 = Some 4);
                   isFlush_v = list_all (\<lambda>s. Some s = js_index (strings_at h8 suits_a) 0)
                                 (strings_at h8 suits_a);
                   (ranksAceHigh_a, h9) =
                      alloc (Numbers (map aceHigh (numbers_at h8 ranks_a))) h8;
                   h10 = store ranksAceHigh_a
                           (Numbers (sort_ascending (numbers_at h9 ranksAceHigh_a))) h9;
                   (set_a, h11) =
                      alloc (SetObj (Set_of_array (numbers_at h10 ranksAceHigh_a))) h10;
                   (uniqueAceHigh_a, h12) = alloc (Numbers (set_at h11 set_a)) h11;
                   (sortedCards_a, h13) = alloc (Numbers (numbers_at h12 ranks_a)) h12;
                   h14 = store sortedCards_a
                           (Numbers (sort_ascending (numbers_at h13 sortedCards_a))) h13;
                   (wheelPattern_a, h15) = alloc (Numbers [1, 2, 3, 4, 5]) h14;
                   wheelStraight_v = wheel_loop (numbers_at h15 sortedCards_a)
                                       (numbers_at h15 wheelPattern_a);
                   isStraight_v =
                     ((length (numbers_at h15 uniqueAceHigh_a) = 5
                       \<and> isConsecutive (numbers_at h15 uniqueAceHigh_a))
                      \<or> wheelStraight_v);
                   straightHigh_v =
                     (if wheelStraight_v then Some 5
                      else js_index (numbers_at h15 ranksAceHigh_a) 4)
               in (Inr
                    (if isStraight_v \<and> isFlush_v then
                       (if straightHigh_v = Some 14
                           \<and> js_index (numbers_at h15 ranksAceHigh_a) 0 = Some 10
                        then ''royalflush'' else ''straightflush'')
                     else if hasFour_v then ''fourofakind''
                     else if hasThree_v \<and> numPairs_v = 1 then ''fullhouse''
                     else if isFlush_v then ''flush''
                     else if isStraight_v then ''straight''
                     else if hasThree_v then ''threeofakind''
                     else if numPairs_v = 2 then ''twopair''
                     else if numPairs_v = 1 then ''pair''
                     else ''highcard''),
                   h15))))
      | None \<Rightarrow> (Inl TypeError, h0))"

text \<open>Calls one after the other, each in the store the one before left.\<close>

fun run_calls :: "nat list \<Rightarrow> heap \<Rightarrow> (js_error + string) list \<times> heap" where
  "run_calls [] h = ([], h)"
| "run_calls (a # as) h =
     (let (r, h') = evaluatePokerHand_exec a h;
          (rs, h'') = run_calls as h'
      in (r # rs, h''))"

text \<open>The card objects of the array at an address, read through its references.\<close>

definition hand_cards :: "heap \<Rightarrow> nat \<Rightarrow> js_error + js_card list" where
  "hand_cards h a =
     (case array_at h a of
        Some elements \<Rightarrow> map_throwing (card_of_element h) elements
      | None \<Rightarrow> Inl TypeError)"

text \<open>The address holds an object of the store, and so does every reference in it.\<close>

definition refs_in_store :: "heap \<Rightarrow> nat \<Rightarrow> bool" where
  "refs_in_store h a =
     (a < length h \<and>
      (case array_at h a of
         Some elements \<Rightarrow>
           list_all (\<lambda>v. case v of JSRef b \<Rightarrow> b < length h | _ \<Rightarrow> True) elements
       | None \<Rightarrow> True))"

subsection \<open>Example card objects and an example store\<close>

definition mk_js_card :: "int \<Rightarrow> js_value \<Rightarrow> js_card" where
  "mk_js_card r v = \<lparr>js_suit = v, js_rank = r\<rparr>"



text \<open>
  Five card objects at the addresses 0 to 4 and two arrays: the wheel in mixed suits at
  address 5, and at address 6 a hand that refers to two of the same card objects
  several times.
\<close>

definition example_store :: heap where
  "example_store =
     [CardObj (mk_js_card 1 (JSString ''club'')),
      CardObj (mk_js_card 2 (JSString ''diamond'')),
      CardObj (mk_js_card 3 (JSString ''spade'')),
      CardObj (mk_js_card 4 (JSString ''heart'')),
      CardObj (mk_js_card 5 (JSString ''club'')),
      ValueArray [JSRef 0, JSRef 1, JSRef 2, JSRef 3, JSRef 4],
      ValueArray [JSRef 4, JSRef 4, JSRef 4, JSRef 0, JSRef 0]]"

text \<open>The same wheel in another store, at other addresses.\<close>

definition other_store :: heap where
  "other_store =
     [ValueArray [JSRef 2, JSRef 3, JSRef 4, JSRef 5, JSRef 6],
      Numbers [9, 9],
      CardObj (mk_js_card 1 (JSString ''club'')),
      CardObj (mk_js_card 2 (JSString ''diamond'')),
      CardObj (mk_js_card 3 (JSString ''spade'')),
      CardObj (mk_js_card 4 (JSString ''heart'')),
      CardObj (mk_js_card 5 (JSString ''club''))]"

section \<open>Properties of the model\<close>

subsection \<open>The rank-to-count mapping\<close>

lemma or_zero_Some [simp]: "or_zero (Some c) = c"
  by (simp add: or_zero_def)

lemma or_zero_None [simp]: "or_zero None = 0"
  by (simp add: or_zero_def)

lemma map_of_count_step:
  "map_of (count_step r m) k = (if k = r then Some (or_zero (map_of m r) + 1) else map_of m k)"
  by (simp add: count_step_def Map_set_def Map_get_def update_conv')

lemma distinct_count_step:
  "distinct (map fst m) \<Longrightarrow> distinct (map fst (count_step r m))"
  by (simp add: count_step_def Map_set_def distinct_update)

lemma keys_count_step:
  "fst ` set (count_step r m) = insert r (fst ` set m)"
  using update_keys [of r "or_zero (Map_get m r) + 1" m]
  by (auto simp add: count_step_def Map_set_def simp flip: set_map split: if_splits)

lemma sum_update:
  "sum_list (map snd (AList.update r v m)) + or_zero (map_of m r) = sum_list (map snd m) + v"
  by (induction m) auto

lemma sum_count_step:
  "sum_list (map snd (count_step r m)) = sum_list (map snd m) + 1"
  using sum_update [of r "or_zero (map_of m r) + 1" m]
  by (simp add: count_step_def Map_set_def Map_get_def)

lemma map_of_fold_count:
  "map_of (fold count_step rs m) k =
     (case map_of m k of
        None \<Rightarrow> (if k \<in> set rs then Some (count_list rs k) else None)
      | Some c \<Rightarrow> Some (c + count_list rs k))"
proof (induction rs arbitrary: m)
  case Nil
  show ?case by (simp split: option.splits)
next
  case (Cons r rs)
  show ?case
    by (simp add: Cons.IH map_of_count_step split: option.splits)
qed

lemma distinct_fold_count:
  "distinct (map fst m) \<Longrightarrow> distinct (map fst (fold count_step rs m))"
  by (induction rs arbitrary: m) (simp_all add: distinct_count_step)

lemma keys_fold_count:
  "fst ` set (fold count_step rs m) = fst ` set m \<union> set rs"
  by (induction rs arbitrary: m) (simp_all add: keys_count_step)

lemma sum_fold_count:
  "sum_list (map snd (fold count_step rs m)) = sum_list (map snd m) + length rs"
  by (induction rs arbitrary: m) (simp_all add: sum_count_step)

subsection \<open>Deduplication, the consecutive test and the wheel loop\<close>

lemma set_fold_Set_add:
  "set (fold (\<lambda>x s. Set_add s x) xs acc) = set acc \<union> set xs"
  by (induction xs arbitrary: acc) (auto simp add: Set_add_def)

lemma distinct_fold_Set_add:
  "distinct acc \<Longrightarrow> distinct (fold (\<lambda>x s. Set_add s x) xs acc)"
  by (induction xs arbitrary: acc) (auto simp add: Set_add_def)

lemma sorted_fold_Set_add:
  "sorted (acc @ xs) \<Longrightarrow> sorted (fold (\<lambda>x s. Set_add s x) xs acc)"
proof (induction xs arbitrary: acc)
  case Nil
  then show ?case by simp
next
  case (Cons x xs)
  have "sorted (Set_add acc x @ xs)"
    using Cons.prems by (auto simp add: Set_add_def sorted_append)
  then show ?case using Cons.IH by simp
qed

lemma Set_of_array_sorted:
  "sorted xs \<Longrightarrow> Set_of_array xs = sorted_list_of_set (set xs)"
proof -
  assume s: "sorted xs"
  have "sorted (Set_of_array xs)" "distinct (Set_of_array xs)" "set (Set_of_array xs) = set xs"
    using s by (simp_all add: Set_of_array_def sorted_fold_Set_add distinct_fold_Set_add set_fold_Set_add)
  then show ?thesis
    by (metis sorted_list_of_set.idem_if_sorted_distinct)
qed

lemma uniqueAceHigh_eq:
  "uniqueAceHigh hand = sorted_list_of_set (set (map aceHigh (ranks hand)))"
  by (simp add: uniqueAceHigh_def ranksAceHigh_def sort_ascending_def Set_of_array_sorted)

lemma consecutive_loop_iff:
  "consecutive_loop xs \<longleftrightarrow> (\<forall>i. Suc i < length xs \<longrightarrow> xs ! Suc i - xs ! i = 1)"
proof (induction xs rule: consecutive_loop.induct)
  case (1 x y zs)
  show ?case
  proof (cases "y - x = 1")
    case True
    have "(\<forall>i. Suc i < length (x # y # zs) \<longrightarrow> (x # y # zs) ! Suc i - (x # y # zs) ! i = 1)
          \<longleftrightarrow> (\<forall>i. Suc i < length (y # zs) \<longrightarrow> (y # zs) ! Suc i - (y # zs) ! i = 1)"
      (is "?L \<longleftrightarrow> ?R")
    proof
      assume l: ?L
      show ?R
      proof (intro allI impI)
        fix i assume "Suc i < length (y # zs)"
        then show "(y # zs) ! Suc i - (y # zs) ! i = 1"
          using l [rule_format, of "Suc i"] by simp
      qed
    next
      assume r: ?R
      show ?L
      proof (intro allI impI)
        fix i assume i: "Suc i < length (x # y # zs)"
        show "(x # y # zs) ! Suc i - (x # y # zs) ! i = 1"
        proof (cases i)
          case 0
          then show ?thesis using True by simp
        next
          case (Suc j)
          then show ?thesis using r [rule_format, of j] i by simp
        qed
      qed
    qed
    then show ?thesis using True 1 by simp
  next
    case False
    have "\<not> (\<forall>i. Suc i < length (x # y # zs) \<longrightarrow> (x # y # zs) ! Suc i - (x # y # zs) ! i = 1)"
    proof
      assume a: "\<forall>i. Suc i < length (x # y # zs) \<longrightarrow> (x # y # zs) ! Suc i - (x # y # zs) ! i = 1"
      from a [rule_format, of 0] have "y - x = 1" by simp
      with False show False by simp
    qed
    then show ?thesis using False by simp
  qed
qed simp_all

lemma isConsecutive_iff:
  "isConsecutive xs \<longleftrightarrow> length xs = 5 \<and> (\<forall>i. Suc i < length xs \<longrightarrow> xs ! Suc i - xs ! i = 1)"
  by (simp add: isConsecutive_def consecutive_loop_iff)

lemma length5_cases:
  assumes "length xs = 5"
  obtains a b c d e where "xs = [a, b, c, d, e]"
proof -
  from assms obtain a r1 where "xs = a # r1" "length r1 = 4" by (cases xs) auto
  moreover then obtain b r2 where "r1 = b # r2" "length r2 = 3" by (cases r1) auto
  moreover then obtain c r3 where "r2 = c # r3" "length r3 = 2" by (cases r2) auto
  moreover then obtain d r4 where "r3 = d # r4" "length r4 = 1" by (cases r3) auto
  moreover then obtain e where "r4 = [e]" by (cases r4) auto
  ultimately show ?thesis using that by blast
qed

lemma wheel_loop_5:
  "length cs = 5 \<Longrightarrow> wheel_loop cs wheelPattern \<longleftrightarrow> cs = [1, 2, 3, 4, 5]"
  by (erule length5_cases) (auto simp add: wheelPattern_def)

lemma wheelStraight_5:
  "length hand = 5 \<Longrightarrow> wheelStraight hand \<longleftrightarrow> sort (ranks hand) = [1, 2, 3, 4, 5]"
  by (simp add: wheelStraight_def sortedCards_def sort_ascending_def wheel_loop_5 ranks_def)

lemma every_equals_first:
  "list_all (\<lambda>s. Some s = js_index ss 0) ss \<longleftrightarrow> (\<forall>s \<in> set ss. \<forall>t \<in> set ss. s = t)"
proof (cases ss)
  case Nil
  then show ?thesis by simp
next
  case (Cons a r)
  have "list_all (\<lambda>s. Some s = js_index ss 0) ss \<longleftrightarrow> (\<forall>s \<in> set ss. s = a)"
    by (auto simp add: Cons js_index_def list_all_iff)
  also have "\<dots> \<longleftrightarrow> (\<forall>s \<in> set ss. \<forall>t \<in> set ss. s = t)"
  proof -
    have "a \<in> set ss" using Cons by simp
    then show ?thesis by metis
  qed
  finally show ?thesis .
qed

lemma isFlush_iff:
  "isFlush hand \<longleftrightarrow> (\<forall>s \<in> set (suits hand). \<forall>t \<in> set (suits hand). s = t)"
  by (simp add: isFlush_def every_equals_first)

lemma sort_cong_mset: "mset xs = mset ys \<Longrightarrow> sort xs = sort ys"
  by (metis sorted_list_of_multiset_mset)

subsection \<open>What the locals depend on\<close>

lemma rankCounts_distinct: "distinct (map fst (rankCounts hand))"
  by (simp add: rankCounts_def distinct_fold_count)

lemma rankCounts_keys: "fst ` set (rankCounts hand) = set (ranks hand)"
  by (simp add: rankCounts_def keys_fold_count)

lemma rankCounts_lookup:
  "map_of (rankCounts hand) k =
     (if k \<in> set (ranks hand) then Some (count_list (ranks hand) k) else None)"
  by (simp add: rankCounts_def map_of_fold_count)

lemma rankCounts_entry:
  "(k, v) \<in> set (rankCounts hand) \<longleftrightarrow> k \<in> set (ranks hand) \<and> v = count_list (ranks hand) k"
proof -
  have "(k, v) \<in> set (rankCounts hand) \<longleftrightarrow> map_of (rankCounts hand) k = Some v"
    using rankCounts_distinct [of hand] by simp
  then show ?thesis by (auto simp add: rankCounts_lookup)
qed

lemma rankCounts_values:
  "Map_values (rankCounts hand) = map (count_list (ranks hand)) (map fst (rankCounts hand))"
proof -
  have "\<forall>p \<in> set (rankCounts hand). snd p = count_list (ranks hand) (fst p)"
  proof
    fix p assume "p \<in> set (rankCounts hand)"
    then have "(fst p, snd p) \<in> set (rankCounts hand)" by simp
    then show "snd p = count_list (ranks hand) (fst p)"
      by (simp only: rankCounts_entry)
  qed
  then show ?thesis by (simp add: Map_values_def)
qed

lemma rankCounts_values_mset:
  "mset (Map_values (rankCounts hand)) =
     image_mset (count (mset (ranks hand))) (mset_set (set_mset (mset (ranks hand))))"
proof -
  have k: "mset (map fst (rankCounts hand)) = mset_set (set (ranks hand))"
    using mset_set_set [OF rankCounts_distinct, of hand] rankCounts_keys [of hand] by simp
  have "mset (Map_values (rankCounts hand)) =
        image_mset (count_list (ranks hand)) (mset (map fst (rankCounts hand)))"
    by (simp only: rankCounts_values mset_map)
  also have "\<dots> = image_mset (count (mset (ranks hand))) (mset_set (set (ranks hand)))"
    by (simp only: k) (simp add: count_mset [abs_def])
  finally show ?thesis by simp
qed

lemma values_cong:
  "mset (ranks h1) = mset (ranks h2) \<Longrightarrow>
   mset (Map_values (rankCounts h1)) = mset (Map_values (rankCounts h2))"
proof -
  assume "mset (ranks h1) = mset (ranks h2)"
  then show ?thesis
    using rankCounts_values_mset [of h1] rankCounts_values_mset [of h2] by simp
qed

lemma descendingOrder_cong:
  "mset (ranks h1) = mset (ranks h2) \<Longrightarrow> descendingOrder h1 = descendingOrder h2"
proof -
  assume "mset (ranks h1) = mset (ranks h2)"
  then have "sort (Map_values (rankCounts h1)) = sort (Map_values (rankCounts h2))"
    by (intro sort_cong_mset values_cong)
  then show ?thesis
    by (simp add: descendingOrder_def sort_descending_def)
qed

lemma numPairs_mset:
  "numPairs hand = size (filter_mset (\<lambda>v. v = 2) (mset (Map_values (rankCounts hand))))"
  by (simp add: numPairs_def flip: mset_filter)

lemma numPairs_cong:
  "mset (ranks h1) = mset (ranks h2) \<Longrightarrow> numPairs h1 = numPairs h2"
proof -
  assume "mset (ranks h1) = mset (ranks h2)"
  then have "mset (Map_values (rankCounts h1)) = mset (Map_values (rankCounts h2))"
    by (rule values_cong)
  then show ?thesis
    by (simp only: numPairs_mset)
qed

lemma ranksAceHigh_cong:
  "mset (ranks h1) = mset (ranks h2) \<Longrightarrow> ranksAceHigh h1 = ranksAceHigh h2"
proof -
  assume "mset (ranks h1) = mset (ranks h2)"
  then have "mset (map aceHigh (ranks h1)) = mset (map aceHigh (ranks h2))"
    by (metis mset_map)
  then have "sort (map aceHigh (ranks h1)) = sort (map aceHigh (ranks h2))"
    by (rule sort_cong_mset)
  then show ?thesis
    by (simp add: ranksAceHigh_def sort_ascending_def)
qed

lemma sortedCards_cong:
  "mset (ranks h1) = mset (ranks h2) \<Longrightarrow> sortedCards h1 = sortedCards h2"
proof -
  assume "mset (ranks h1) = mset (ranks h2)"
  then have "sort (ranks h1) = sort (ranks h2)"
    by (rule sort_cong_mset)
  then show ?thesis
    by (simp add: sortedCards_def sort_ascending_def)
qed

lemma evaluate_cong:
  assumes r: "mset (ranks h1) = mset (ranks h2)" and f: "isFlush h1 = isFlush h2"
  shows "evaluatePokerHand h1 = evaluatePokerHand h2"
proof -
  have a: "ranksAceHigh h1 = ranksAceHigh h2" using r by (rule ranksAceHigh_cong)
  have c: "sortedCards h1 = sortedCards h2" using r by (rule sortedCards_cong)
  have w: "wheelStraight h1 = wheelStraight h2"
    by (simp add: wheelStraight_def c)
  have s: "isStraight h1 = isStraight h2"
    by (simp add: isStraight_def uniqueAceHigh_def a w)
  have h: "straightHigh h1 = straightHigh h2"
    by (simp add: straightHigh_def a w)
  have d: "descendingOrder h1 = descendingOrder h2" using r by (rule descendingOrder_cong)
  have n: "numPairs h1 = numPairs h2" using r by (rule numPairs_cong)
  show ?thesis
    by (simp add: evaluatePokerHand_def hasThree_def hasFour_def a s h d n f)
qed

lemma suits_cong_mset: "mset h1 = mset h2 \<Longrightarrow> set (suits h1) = set (suits h2)"
  by (metis suits_def set_map mset_eq_setD)

lemma ranks_cong_mset: "mset h1 = mset h2 \<Longrightarrow> mset (ranks h1) = mset (ranks h2)"
  by (metis ranks_def mset_map)

subsection \<open>Lowest and highest mapped rank, and the specification's two paths\<close>

lemma sorted_first_Min:
  assumes "sorted ys" "ys \<noteq> []"
  shows "ys ! 0 = Min (set ys)"
proof -
  obtain a r where ys: "ys = a # r" using assms(2) by (cases ys) auto
  have "\<forall>y \<in> set ys. a \<le> y" using assms(1) ys by auto
  then have "Min (set ys) = a" using ys by (intro Min_eqI) auto
  then show ?thesis using ys by simp
qed

lemma sorted_last_Max:
  assumes "sorted ys" "ys \<noteq> []"
  shows "ys ! (length ys - 1) = Max (set ys)"
proof -
  have "\<forall>y \<in> set ys. y \<le> ys ! (length ys - 1)"
  proof
    fix y assume "y \<in> set ys"
    then obtain i where "i < length ys" "y = ys ! i" by (auto simp add: in_set_conv_nth)
    then show "y \<le> ys ! (length ys - 1)"
      using assms(1) by (simp add: sorted_nth_mono)
  qed
  moreover have "ys ! (length ys - 1) \<in> set ys" using assms(2) by simp
  ultimately have "Max (set ys) = ys ! (length ys - 1)" by (intro Max_eqI) auto
  then show ?thesis by simp
qed

lemma length_ranksAceHigh [simp]: "length (ranksAceHigh hand) = length hand"
  by (simp add: ranksAceHigh_def sort_ascending_def ranks_def)

lemma set_ranksAceHigh: "set (ranksAceHigh hand) = set (map aceHigh (ranks hand))"
  by (simp add: ranksAceHigh_def sort_ascending_def)

lemma sorted_ranksAceHigh: "sorted (ranksAceHigh hand)"
  by (simp add: ranksAceHigh_def sort_ascending_def)

lemma ranksAceHigh_first:
  "hand \<noteq> [] \<Longrightarrow> js_index (ranksAceHigh hand) 0 = Some (Min (set (map aceHigh (ranks hand))))"
  using sorted_first_Min [OF sorted_ranksAceHigh, of hand]
  by (simp add: js_index_def set_ranksAceHigh flip: length_0_conv [of "ranksAceHigh hand"])

lemma ranksAceHigh_fifth:
  "length hand = 5 \<Longrightarrow> js_index (ranksAceHigh hand) 4 = Some (Max (set (map aceHigh (ranks hand))))"
proof -
  assume l: "length hand = 5"
  then have "ranksAceHigh hand \<noteq> []" by (simp flip: length_0_conv)
  then show ?thesis
    using sorted_last_Max [OF sorted_ranksAceHigh, of hand] l
    by (simp add: js_index_def set_ranksAceHigh)
qed

lemma uniqueAceHigh_remdups:
  "uniqueAceHigh hand = remdups (sort (map aceHigh (ranks hand)))"
proof -
  have "sorted_list_of_set (set (remdups (sort (map aceHigh (ranks hand)))))
        = remdups (sort (map aceHigh (ranks hand)))"
    by (intro sorted_list_of_set.idem_if_sorted_distinct sorted_remdups) simp_all
  then show ?thesis by (simp add: uniqueAceHigh_eq)
qed

lemma spec_ace_high_path_iff:
  "spec_ace_high_path (map rank hand) \<longleftrightarrow>
     length (uniqueAceHigh hand) = 5 \<and> isConsecutive (uniqueAceHigh hand)"
proof -
  have m: "map (\<lambda>r. if r = 1 then 14 else r) (map rank hand) = map aceHigh (ranks hand)"
    by (simp add: aceHigh_def ranks_def)
  have q: "length d = 5 \<Longrightarrow>
      (\<forall>i \<in> set [0..<4]. d ! (i + 1) - d ! i = 1) \<longleftrightarrow> (\<forall>i. Suc i < length d \<longrightarrow> d ! Suc i - d ! i = 1)"
    for d :: "int list"
    by auto
  show ?thesis
    unfolding spec_ace_high_path_def m isConsecutive_iff uniqueAceHigh_remdups Let_def
    using q by blast
qed

lemma spec_wheel_path_iff:
  "length hand = 5 \<Longrightarrow> spec_wheel_path (map rank hand) \<longleftrightarrow> wheelStraight hand"
  by (simp add: spec_wheel_path_def wheelStraight_5 ranks_def)

lemma isFlush_suits_all_equal: "isFlush hand \<longleftrightarrow> spec_all_suits_equal hand"
  by (simp add: isFlush_iff spec_all_suits_equal_def suits_def)

subsection \<open>Counts of a rank and the suits of its cards\<close>

lemma count_list_ranks:
  "count_list (ranks hand) k = length (filter (\<lambda>c. rank c = k) hand)"
  by (induction hand) (simp_all add: ranks_def)

lemma distinct_suits_of_rank:
  "no_duplicate_cards hand \<Longrightarrow> distinct (map suit (filter (\<lambda>c. rank c = k) hand))"
  unfolding no_duplicate_cards_def
  by (induction hand) (auto simp add: image_iff)

lemma count_le_suits:
  assumes "no_duplicate_cards hand"
  shows "count_list (ranks hand) k \<le> card (suit ` set hand)"
proof -
  have "count_list (ranks hand) k = length (map suit (filter (\<lambda>c. rank c = k) hand))"
    by (simp add: count_list_ranks)
  also have "\<dots> = card (set (map suit (filter (\<lambda>c. rank c = k) hand)))"
    using distinct_suits_of_rank [OF assms, of k] by (simp only: distinct_card)
  also have "\<dots> \<le> card (suit ` set hand)"
    by (intro card_mono) auto
  finally show ?thesis .
qed

lemma rankCounts_value_count:
  "v \<in> set (Map_values (rankCounts hand)) \<Longrightarrow>
     \<exists>k \<in> set (ranks hand). v = count_list (ranks hand) k"
proof -
  assume "v \<in> set (Map_values (rankCounts hand))"
  then obtain k where "(k, v) \<in> set (rankCounts hand)"
    by (auto simp add: Map_values_def)
  then show ?thesis by (auto simp add: rankCounts_entry)
qed

lemma rankCounts_value_pos:
  "v \<in> set (Map_values (rankCounts hand)) \<Longrightarrow> 1 \<le> v"
proof -
  assume "v \<in> set (Map_values (rankCounts hand))"
  then obtain k where "k \<in> set (ranks hand)" "v = count_list (ranks hand) k"
    using rankCounts_value_count by blast
  then show ?thesis
    using count_mset_gt_0 [of k "ranks hand"] by (simp add: count_mset)
qed

lemma rankCounts_sum: "sum_list (Map_values (rankCounts hand)) = length hand"
  by (simp add: Map_values_def rankCounts_def sum_fold_count ranks_def)

lemma fours_le_sum: "4 * length (filter (\<lambda>v. v = 4) vs) \<le> sum_list (vs :: nat list)"
  by (induction vs) auto

subsection \<open>Reading and writing the store\<close>

lemma js_index_Cons_0: "js_index (x # xs) 0 = Some x"
  by (simp add: js_index_def)

lemma js_index_Cons_Suc: "js_index (x # xs) (Suc n) = js_index xs n"
  by (simp add: js_index_def)

lemma js_index_Cons_numeral: "js_index (x # xs) (numeral k) = js_index xs (pred_numeral k)"
  by (simp add: js_index_def numeral_eq_Suc)

lemma js_index_Cons_1: "js_index (x # xs) 1 = js_index xs 0"
  by (simp add: js_index_def)

lemma js_index_fresh: "length h \<le> n \<Longrightarrow> js_index (h @ xs) n = js_index xs (n - length h)"
  by (auto simp add: js_index_def nth_append)

lemma update_fresh: "length h \<le> n \<Longrightarrow> (h @ xs)[n := y] = h @ xs[n - length h := y]"
  by (simp add: list_update_append)

lemma count_in_place_step:
  "count_in_place m r h = h[m := MapObj (count_step r (map_at h m))]"
  by (simp add: count_in_place_def store_def count_step_def)

lemma map_at_update: "m < length h \<Longrightarrow> map_at (h[m := MapObj mp]) m = mp"
  by (simp add: map_at_def js_index_def)

lemma fold_count_in_place:
  "js_index h m = Some (MapObj (map_at h m)) \<Longrightarrow>
   fold (count_in_place m) rs h = h[m := MapObj (fold count_step rs (map_at h m))]"
proof (induction rs arbitrary: h)
  case Nil
  then have "m < length h" "h ! m = MapObj (map_at h m)"
    by (simp_all add: js_index_def split: if_splits)
  then have "h[m := MapObj (map_at h m)] = h"
    by (metis list_update_id)
  then show ?case by simp
next
  case (Cons r rs)
  let ?h = "h[m := MapObj (count_step r (map_at h m))]"
  have m: "m < length h"
    using Cons.prems by (simp add: js_index_def split: if_splits)
  have g: "map_at ?h m = count_step r (map_at h m)"
    using m by (rule map_at_update)
  have i: "js_index ?h m = Some (MapObj (map_at ?h m))"
    using m by (simp add: g js_index_def)
  show ?case
    using Cons.IH [OF i] by (simp add: count_in_place_step g)
qed

lemmas heap_simps = alloc_def Let_def store_def
      numbers_at_def counts_at_def strings_at_def map_at_def set_at_def
      js_index_Cons_0 js_index_Cons_Suc js_index_Cons_numeral js_index_Cons_1 js_index_fresh update_fresh fold_count_in_place

subsection \<open>The call in a store, path by path\<close>

lemma exec_success:
  assumes "array_at h a = Some elements"
    and "map_throwing (card_of_element h) elements = Inr cards"
    and "map_throwing (\<lambda>card. call_toLowerCase (js_suit card)) cards = Inr (suits typed)"
    and "map js_rank cards = ranks typed"
  shows "evaluatePokerHand_exec a h =
     (Inr (evaluatePokerHand typed),
      h @ [Numbers (ranks typed), Strings (suits typed), MapObj (rankCounts typed),
           Counts (descendingOrder typed), Counts (Map_values (rankCounts typed)),
           Counts (filter (\<lambda>v. v = 2) (Map_values (rankCounts typed))),
           Numbers (ranksAceHigh typed), SetObj (uniqueAceHigh typed),
           Numbers (uniqueAceHigh typed), Numbers (sortedCards typed), Numbers wheelPattern])"
  using assms
  by (simp add: evaluatePokerHand_exec_def heap_simps
      evaluatePokerHand_def hasThree_def hasFour_def numPairs_def descendingOrder_def
      rankCounts_def isFlush_def ranksAceHigh_def uniqueAceHigh_def sortedCards_def
      wheelStraight_def isStraight_def straightHigh_def wheelPattern_def
      split del: if_split cong del: if_weak_cong cong: if_cong let_weak_cong prod.case_cong_weak)

lemma exec_throw_27:
  assumes "array_at h a = Some elements"
    and "map_throwing (card_of_element h) elements = Inr cards"
    and "map_throwing (\<lambda>card. call_toLowerCase (js_suit card)) cards = Inl e"
  shows "evaluatePokerHand_exec a h = (Inl e, h @ [Numbers (map js_rank cards)])"
  using assms
  by (simp add: evaluatePokerHand_exec_def alloc_def)

lemma exec_throw_26:
  assumes "array_at h a = Some elements"
    and "map_throwing (card_of_element h) elements = Inl e"
  shows "evaluatePokerHand_exec a h = (Inl e, h)"
  using assms
  by (simp add: evaluatePokerHand_exec_def)

lemma exec_not_array:
  assumes "array_at h a = None"
  shows "evaluatePokerHand_exec a h = (Inl TypeError, h)"
  using assms
  by (simp add: evaluatePokerHand_exec_def)

subsection \<open>Card objects and typed cards; calls one after the other\<close>


lemma map_throwing_cong:
  "\<forall>x \<in> set xs. f x = g x \<Longrightarrow> map_throwing f xs = map_throwing g xs"
  by (induction xs) (simp_all cong: sum.case_cong)

lemma as_card_lower:
  "call_toLowerCase (js_suit c) =
     (case as_card c of Inl e \<Rightarrow> Inl e | Inr t \<Rightarrow> Inr (toLowerCase (suit t)))"
  by (simp add: call_toLowerCase_def as_card_def split: js_value.splits)

lemma as_card_rank: "as_card c = Inr t \<Longrightarrow> rank t = js_rank c"
  by (auto simp add: as_card_def split: js_value.splits)


lemma typed_lowered:
  "map_throwing as_card cards = Inr typed \<Longrightarrow>
   map_throwing (\<lambda>card. call_toLowerCase (js_suit card)) cards = Inr (suits typed)
   \<and> map js_rank cards = ranks typed"
proof (induction cards arbitrary: typed)
  case Nil
  then show ?case by (simp add: suits_def ranks_def)
next
  case (Cons c cards)
  from Cons.prems obtain t ts where t: "as_card c = Inr t"
    and ts: "map_throwing as_card cards = Inr ts" and ty: "typed = t # ts"
    by (auto split: sum.splits)
  show ?case
    using Cons.IH [OF ts] as_card_rank [OF t]
    by (simp add: ty as_card_lower t suits_def ranks_def)
qed

lemma untyped_throws:
  "map_throwing as_card cards = Inl e \<Longrightarrow>
   map_throwing (\<lambda>card. call_toLowerCase (js_suit card)) cards = Inl e"
proof (induction cards)
  case Nil
  then show ?case by simp
next
  case (Cons c cards)
  show ?case
  proof (cases "as_card c")
    case (Inl e')
    then show ?thesis using Cons.prems by (simp add: as_card_lower)
  next
    case (Inr t)
    note t = this
    show ?thesis
    proof (cases "map_throwing as_card cards")
      case (Inl e')
      then show ?thesis using Cons.prems Cons.IH t by (simp add: as_card_lower)
    next
      case (Inr ts)
      then show ?thesis using Cons.prems t by simp
    qed
  qed
qed



lemma exec_result:
  "fst (evaluatePokerHand_exec a h) =
     (case hand_cards h a of Inl e \<Rightarrow> Inl e | Inr cards \<Rightarrow> evaluatePokerHand_js cards)"
proof (cases "array_at h a")
  case None
  then have "evaluatePokerHand_exec a h = (Inl TypeError, h)" by (rule exec_not_array)
  moreover have "hand_cards h a = Inl TypeError"
    using None by (simp add: hand_cards_def)
  ultimately show ?thesis by simp
next
  case (Some elements)
  note el = this
  then have hc: "hand_cards h a = map_throwing (card_of_element h) elements"
    by (simp add: hand_cards_def)
  show ?thesis
  proof (cases "map_throwing (card_of_element h) elements")
    case (Inl e)
    then show ?thesis using exec_throw_26 [OF el Inl] hc by simp
  next
    case (Inr cards)
    note cards = this
    show ?thesis
    proof (cases "map_throwing as_card cards")
      case (Inl e)
      have "evaluatePokerHand_exec a h = (Inl e, h @ [Numbers (map js_rank cards)])"
        using el cards untyped_throws [OF Inl] by (rule exec_throw_27)
      then show ?thesis using hc cards Inl by (simp add: evaluatePokerHand_js_def)
    next
      case (Inr typed)
      have l: "map_throwing (\<lambda>card. call_toLowerCase (js_suit card)) cards = Inr (suits typed)"
        and r: "map js_rank cards = ranks typed"
        using typed_lowered [OF Inr] by simp_all
      have "fst (evaluatePokerHand_exec a h) = Inr (evaluatePokerHand typed)"
        by (simp add: exec_success [OF el cards l r])
      then show ?thesis using hc cards Inr by (simp add: evaluatePokerHand_js_def)
    qed
  qed
qed

lemma exec_frame: "\<exists>fresh. snd (evaluatePokerHand_exec a h) = h @ fresh"
proof (cases "array_at h a")
  case None
  then have "evaluatePokerHand_exec a h = (Inl TypeError, h)" by (rule exec_not_array)
  then show ?thesis by simp
next
  case (Some elements)
  note el = this
  show ?thesis
  proof (cases "map_throwing (card_of_element h) elements")
    case (Inl e)
    then show ?thesis using exec_throw_26 [OF el Inl] by simp
  next
    case (Inr cards)
    note cards = this
    show ?thesis
    proof (cases "map_throwing as_card cards")
      case (Inl e)
      have "evaluatePokerHand_exec a h = (Inl e, h @ [Numbers (map js_rank cards)])"
        using el cards untyped_throws [OF Inl] by (rule exec_throw_27)
      then show ?thesis by simp
    next
      case (Inr typed)
      have l: "map_throwing (\<lambda>card. call_toLowerCase (js_suit card)) cards = Inr (suits typed)"
        and r: "map js_rank cards = ranks typed"
        using typed_lowered [OF Inr] by simp_all
      show ?thesis
        by (simp add: exec_success [OF el cards l r])
    qed
  qed
qed

lemma js_index_old: "b < length h \<Longrightarrow> js_index (h @ fresh) b = js_index h b"
  by (simp add: js_index_def nth_append)

lemma array_at_old: "b < length h \<Longrightarrow> array_at (h @ fresh) b = array_at h b"
  by (simp add: array_at_def js_index_old)

lemma hand_cards_extend:
  assumes "refs_in_store h a"
  shows "hand_cards (h @ fresh) a = hand_cards h a"
proof -
  have a: "a < length h" using assms by (simp add: refs_in_store_def)
  then have i: "array_at (h @ fresh) a = array_at h a" by (rule array_at_old)
  show ?thesis
  proof (cases "array_at h a")
    case None
    then show ?thesis using i by (simp add: hand_cards_def)
  next
    case (Some elements)
    then have r: "list_all (\<lambda>v. case v of JSRef b \<Rightarrow> b < length h | _ \<Rightarrow> True) elements"
      using assms by (simp add: refs_in_store_def)
    have "map_throwing (card_of_element (h @ fresh)) elements
          = map_throwing (card_of_element h) elements"
    proof (rule map_throwing_cong, rule ballI)
      fix v assume "v \<in> set elements"
      then have "case v of JSRef b \<Rightarrow> b < length h | _ \<Rightarrow> True"
        using r by (simp add: list_all_iff)
      then show "card_of_element (h @ fresh) v = card_of_element h v"
        by (cases v) (simp_all add: card_of_element_def js_index_old)
    qed
    then show ?thesis using Some i by (simp add: hand_cards_def)
  qed
qed

lemma run_calls_pure:
  "list_all (refs_in_store h) as \<Longrightarrow>
   fst (run_calls as (h @ past)) =
     map (\<lambda>a. case hand_cards h a of Inl e \<Rightarrow> Inl e
              | Inr cards \<Rightarrow> evaluatePokerHand_js cards) as
   \<and> (\<exists>fresh. snd (run_calls as (h @ past)) = h @ fresh)"
proof (induction as arbitrary: past)
  case Nil
  show ?case by simp
next
  case (Cons a as)
  have ra: "refs_in_store h a" and ras: "list_all (refs_in_store h) as"
    using Cons.prems by simp_all
  obtain fresh where f: "snd (evaluatePokerHand_exec a (h @ past)) = (h @ past) @ fresh"
    using exec_frame by blast
  have r: "fst (evaluatePokerHand_exec a (h @ past)) =
     (case hand_cards h a of Inl e \<Rightarrow> Inl e | Inr cards \<Rightarrow> evaluatePokerHand_js cards)"
    by (simp only: exec_result hand_cards_extend [OF ra])
  have s: "snd (evaluatePokerHand_exec a (h @ past)) = h @ (past @ fresh)"
    using f by simp
  show ?case
    using Cons.IH [OF ras, of "past @ fresh"] r
    by (simp add: Let_def split_beta s)
qed

section \<open>The claims\<close>

text \<open>
  C1. The Category Resolver checks its nine conditions in the order straight and flush,
  four of a kind, full house, flush, straight, three of a kind, two pair, pair, high card,
  and returns the category of the first condition that holds: the function's result is the
  first match of \<open>spec_resolver_table\<close>, for every hand. In particular a hand that is both a
  straight and a flush returns "straightflush" or "royalflush", never "flush" or "straight".
\<close>

theorem resolver_priority_order:
  "spec_first_match (spec_resolver_table hand) = Some (evaluatePokerHand hand) \<and>
   (isStraight hand \<and> isFlush hand \<longrightarrow>
      (evaluatePokerHand hand = ''straightflush'' \<or> evaluatePokerHand hand = ''royalflush'') \<and>
      evaluatePokerHand hand \<noteq> ''flush'' \<and> evaluatePokerHand hand \<noteq> ''straight'')"
  by (auto simp add: spec_first_match_def spec_resolver_table_def evaluatePokerHand_def)

theorem resolver_priority_order_witness:
  "isStraight royal_spades \<and> isFlush royal_spades \<and>
   spec_first_match (spec_resolver_table royal_spades) = Some ''royalflush'' \<and>
   evaluatePokerHand royal_spades = ''royalflush''"
proof -
  have h: "isStraight royal_spades \<and> isFlush royal_spades" by code_simp
  have e: "evaluatePokerHand royal_spades = ''royalflush''" by code_simp
  show ?thesis using h e resolver_priority_order [of royal_spades] by simp
qed

text \<open>
  C2. The wheel 1,2,3,4,5 in mixed suits classifies as "straight"; the same ranks all in
  clubs classify as "straightflush" and not as "royalflush", with \<open>straightHigh\<close> 5.
  For every five-card hand, the wheel flag is the wheel path of the specification, and
  \<open>straightHigh\<close> is 5 when the wheel path matched and otherwise the fifth element of the
  ace-high-mapped ranks sorted ascending, which is their maximum.
\<close>

theorem wheel_classification:
  "evaluatePokerHand wheel_mixed = ''straight'' \<and>
   evaluatePokerHand wheel_clubs = ''straightflush'' \<and>
   evaluatePokerHand wheel_clubs \<noteq> ''royalflush'' \<and>
   straightHigh wheel_clubs = Some 5 \<and>
   (length hand = 5 \<longrightarrow>
      (wheelStraight hand \<longleftrightarrow> spec_wheel_path (map rank hand)) \<and>
      straightHigh hand =
        (if wheelStraight hand then Some 5
         else Some (sort (map (\<lambda>r. if r = 1 then 14 else r) (map rank hand)) ! 4)) \<and>
      sort (map (\<lambda>r. if r = 1 then 14 else r) (map rank hand)) ! 4 =
        Max (set (map (\<lambda>r. if r = 1 then 14 else r) (map rank hand))))"
proof -
  have c1: "evaluatePokerHand wheel_mixed = ''straight''" by code_simp
  have c2: "evaluatePokerHand wheel_clubs = ''straightflush''" by code_simp
  have c3: "straightHigh wheel_clubs = Some 5" by code_simp
  have m: "map (\<lambda>r. if r = 1 then 14 else r) (map rank hand) = map aceHigh (ranks hand)"
    by (simp add: aceHigh_def ranks_def)
  have g: "(wheelStraight hand \<longleftrightarrow> spec_wheel_path (map rank hand)) \<and>
      straightHigh hand =
        (if wheelStraight hand then Some 5 else Some (sort (map aceHigh (ranks hand)) ! 4)) \<and>
      sort (map aceHigh (ranks hand)) ! 4 = Max (set (map aceHigh (ranks hand)))"
    if l: "length hand = 5"
  proof -
    have "js_index (ranksAceHigh hand) 4 = Some (ranksAceHigh hand ! 4)"
      using l by (simp add: js_index_def)
    then show ?thesis
      using ranksAceHigh_fifth [OF l] spec_wheel_path_iff [OF l]
      by (simp add: straightHigh_def ranksAceHigh_def sort_ascending_def)
  qed
  show ?thesis unfolding m using c1 c2 c3 g by simp
qed

theorem wheel_classification_witness:
  "length royal_spades = 5 \<and> \<not> wheelStraight royal_spades \<and> straightHigh royal_spades = Some 14 \<and>
   Max (set (map (\<lambda>r. if r = 1 then 14 else r) (map rank royal_spades))) = 14"
proof -
  have l: "length royal_spades = 5" by code_simp
  have w: "\<not> wheelStraight royal_spades" by code_simp
  have h: "straightHigh royal_spades = Some 14" by code_simp
  show ?thesis using l w h wheel_classification [of royal_spades] by simp
qed

text \<open>
  C3. For a five-card hand that is a straight and a flush, the function returns
  "royalflush" exactly when \<open>straightHigh\<close> is 14 and the lowest ace-high-mapped rank is
  10, and "straightflush" otherwise. The hand 10,11,12,13,1 of spades returns "royalflush".
\<close>

theorem royal_flush_iff:
  "evaluatePokerHand royal_spades = ''royalflush'' \<and>
   (length hand = 5 \<and> isStraight hand \<and> isFlush hand \<longrightarrow>
      (evaluatePokerHand hand = ''royalflush'' \<longleftrightarrow>
         straightHigh hand = Some 14 \<and>
         Min (set (map (\<lambda>r. if r = 1 then 14 else r) (map rank hand))) = 10) \<and>
      (evaluatePokerHand hand \<noteq> ''royalflush'' \<longrightarrow> evaluatePokerHand hand = ''straightflush''))"
proof -
  have c: "evaluatePokerHand royal_spades = ''royalflush''" by code_simp
  have m: "map (\<lambda>r. if r = 1 then 14 else r) (map rank hand) = map aceHigh (ranks hand)"
    by (simp add: aceHigh_def ranks_def)
  have g: "(evaluatePokerHand hand = ''royalflush'' \<longleftrightarrow>
         straightHigh hand = Some 14 \<and> Min (set (map aceHigh (ranks hand))) = 10) \<and>
      (evaluatePokerHand hand \<noteq> ''royalflush'' \<longrightarrow> evaluatePokerHand hand = ''straightflush'')"
    if l: "length hand = 5" and s: "isStraight hand" and f: "isFlush hand"
  proof -
    have "hand \<noteq> []" using l by auto
    then have "js_index (ranksAceHigh hand) 0 = Some (Min (set (map aceHigh (ranks hand))))"
      by (rule ranksAceHigh_first)
    then show ?thesis using s f by (simp add: evaluatePokerHand_def)
  qed
  show ?thesis unfolding m using c g by blast
qed

theorem royal_flush_iff_witness:
  "length wheel_clubs = 5 \<and> isStraight wheel_clubs \<and> isFlush wheel_clubs \<and>
   straightHigh wheel_clubs \<noteq> Some 14 \<and> evaluatePokerHand wheel_clubs = ''straightflush''"
proof -
  have h: "length wheel_clubs = 5 \<and> isStraight wheel_clubs \<and> isFlush wheel_clubs" by code_simp
  have n: "straightHigh wheel_clubs \<noteq> Some 14" by code_simp
  show ?thesis using h n royal_flush_iff [of wheel_clubs] by auto
qed

text \<open>
  C4. For every five-card hand, \<open>isStraight\<close> holds exactly when the ace-high path or the
  wheel path of the specification holds, and the function returns "straight",
  "straightflush" or "royalflush" only for such hands.
\<close>

theorem isStraight_iff_paths:
  "length hand = 5 \<Longrightarrow>
   (isStraight hand \<longleftrightarrow> spec_ace_high_path (map rank hand) \<or> spec_wheel_path (map rank hand)) \<and>
   (evaluatePokerHand hand = ''straight'' \<or> evaluatePokerHand hand = ''straightflush'' \<or>
    evaluatePokerHand hand = ''royalflush'' \<longrightarrow>
      spec_ace_high_path (map rank hand) \<or> spec_wheel_path (map rank hand))"
proof -
  assume l: "length hand = 5"
  have a: "isStraight hand \<longleftrightarrow> spec_ace_high_path (map rank hand) \<or> spec_wheel_path (map rank hand)"
    by (simp add: isStraight_def spec_ace_high_path_iff spec_wheel_path_iff [OF l])
  have b: "evaluatePokerHand hand = ''straight'' \<or> evaluatePokerHand hand = ''straightflush'' \<or>
    evaluatePokerHand hand = ''royalflush'' \<longrightarrow> isStraight hand"
    by (simp add: evaluatePokerHand_def)
  show ?thesis using a b by blast
qed

theorem isStraight_iff_paths_witness:
  "length wheel_mixed = 5 \<and> evaluatePokerHand wheel_mixed = ''straight'' \<and>
   isStraight wheel_mixed \<and> spec_wheel_path (map rank wheel_mixed) \<and>
   \<not> spec_ace_high_path (map rank wheel_mixed)"
proof -
  have l: "length wheel_mixed = 5" by code_simp
  have e: "evaluatePokerHand wheel_mixed = ''straight''" by code_simp
  have n: "\<not> spec_ace_high_path (map rank wheel_mixed)" by code_simp
  show ?thesis using l e n isStraight_iff_paths [OF l] by blast
qed




text \<open>
  C6. For every five-card hand, \<open>isFlush\<close> holds exactly when each of the five suits,
  lowercased, equals the lowercased suit of the first card. A hand whose suits are "Club",
  "club", "CLUB", "cLuB" and "club" is a flush.
\<close>

theorem isFlush_iff_first_suit:
  "isFlush mixed_case_clubs \<and> evaluatePokerHand mixed_case_clubs = ''flush'' \<and>
   toLowerCase ''Club'' = toLowerCase ''club'' \<and>
   (length hand = 5 \<longrightarrow>
      (isFlush hand \<longleftrightarrow>
         (\<forall>i \<in> {0..<5}. toLowerCase (suit (hand ! i)) = toLowerCase (suit (hand ! 0)))))"
proof -
  have c1: "isFlush mixed_case_clubs" by code_simp
  have c2: "evaluatePokerHand mixed_case_clubs = ''flush''" by code_simp
  have c3: "toLowerCase ''Club'' = toLowerCase ''club''" by code_simp
  have g: "isFlush hand \<longleftrightarrow>
         (\<forall>i \<in> {0..<5}. toLowerCase (suit (hand ! i)) = toLowerCase (suit (hand ! 0)))"
    if l: "length hand = 5"
  proof -
    have "isFlush hand \<longleftrightarrow>
         (\<forall>i < 5. toLowerCase (suit (hand ! i)) = toLowerCase (suit (hand ! 0)))"
      using l by (simp add: isFlush_def suits_def js_index_def list_all_length)
    also have "\<dots> \<longleftrightarrow>
         (\<forall>i \<in> {0..<5}. toLowerCase (suit (hand ! i)) = toLowerCase (suit (hand ! 0)))"
      by (simp add: Ball_def)
    finally show ?thesis .
  qed
  show ?thesis
    apply (intro conjI impI)
       apply (rule c1)
      apply (rule c2)
     apply (rule c3)
    apply (erule g)
    done
qed

theorem isFlush_iff_first_suit_witness:
  "length wheel_mixed = 5 \<and> \<not> isFlush wheel_mixed \<and>
   toLowerCase (suit (wheel_mixed ! 1)) \<noteq> toLowerCase (suit (wheel_mixed ! 0))"
proof -
  have l: "length wheel_mixed = 5" by code_simp
  have n: "toLowerCase (suit (wheel_mixed ! 1)) \<noteq> toLowerCase (suit (wheel_mixed ! 0))" by code_simp
  have t: "length wheel_mixed = 5 \<longrightarrow>
      (isFlush wheel_mixed \<longleftrightarrow>
         (\<forall>i \<in> {0..<5}. toLowerCase (suit (wheel_mixed ! i)) = toLowerCase (suit (wheel_mixed ! 0))))"
    using isFlush_iff_first_suit [of wheel_mixed] by (elim conjE)
  have "(1::nat) \<in> {0..<5}" by simp
  then have "\<not> (\<forall>i \<in> {0..<5}. toLowerCase (suit (wheel_mixed ! i)) = toLowerCase (suit (wheel_mixed ! 0)))"
    using n by blast
  then have f: "\<not> isFlush wheel_mixed" using t l by blast
  show ?thesis using l n f by simp
qed

text \<open>
  C7, as amended. For every five-card hand, the counts of the rank-to-count mapping sum
  to 5 and at most one of them equals 4. When the hand has no duplicate (rank, suit) cards
  and at most four different suit strings occur in it, as in every hand over the four
  recognised suits, every count lies between 1 and 4.
\<close>

theorem rankCounts_invariants:
  "length hand = 5 \<Longrightarrow>
   sum_list (Map_values (rankCounts hand)) = 5 \<and>
   length (filter (\<lambda>v. v = 4) (Map_values (rankCounts hand))) \<le> 1 \<and>
   (no_duplicate_cards hand \<and> card (suit ` set hand) \<le> 4 \<longrightarrow> counts_in_range hand)"
proof -
  assume l: "length hand = 5"
  have s: "sum_list (Map_values (rankCounts hand)) = 5"
    using l by (simp add: rankCounts_sum)
  have f: "length (filter (\<lambda>v. v = 4) (Map_values (rankCounts hand))) \<le> 1"
    using fours_le_sum [of "Map_values (rankCounts hand)"] s by simp
  have r: "counts_in_range hand" if n: "no_duplicate_cards hand" and c: "card (suit ` set hand) \<le> 4"
    unfolding counts_in_range_def list_all_iff
  proof
    fix v assume v: "v \<in> set (Map_values (rankCounts hand))"
    then obtain k where "v = count_list (ranks hand) k"
      using rankCounts_value_count by blast
    then have "v \<le> 4" using count_le_suits [OF n, of k] c by simp
    then show "1 \<le> v \<and> v \<le> 4" using rankCounts_value_pos [OF v] by simp
  qed
  show ?thesis using s f r by blast
qed

theorem rankCounts_invariants_witness:
  "length four_sevens = 5 \<and> no_duplicate_cards four_sevens \<and>
   card (suit ` set four_sevens) \<le> 4 \<and> counts_in_range four_sevens \<and>
   sum_list (Map_values (rankCounts four_sevens)) = 5"
proof -
  have l: "length four_sevens = 5" by code_simp
  have n: "no_duplicate_cards four_sevens" by code_simp
  have c: "card (suit ` set four_sevens) \<le> 4" by code_simp
  show ?thesis using l n c rankCounts_invariants [OF l] by blast
qed

text \<open>
  Without the bound on the suits the last part fails: five sevens in the suits club, spade,
  diamond, heart and star are five different cards, and the count of rank 7 is 5.
\<close>

theorem rankCounts_counterexample:
  "length five_sevens = 5 \<and> no_duplicate_cards five_sevens \<and>
   rankCounts five_sevens = [(7, 5)] \<and> \<not> counts_in_range five_sevens"
  by code_simp

text \<open>
  C8. Calls in a store, one after the other, on arrays whose references point into the
  store. Each call returns what \<open>evaluatePokerHand_js\<close> gives for the rank and suit
  values of the hand's cards as the first store holds them, which is what the call would
  return on the first store alone: no earlier call changes a later result. Every object of
  the first store is the same after all the calls: the body writes to objects it created
  itself only (every \<open>sort\<close> works on the array a \<open>map\<close>, a \<open>slice\<close> or a spread has just
  created). Two hands with the same card values, in any two stores at any addresses, get
  the same result. The source declares no variable outside the function, so there is no
  state beside the store.
\<close>

theorem calls_are_pure:
  "list_all (refs_in_store h) as \<Longrightarrow>
   fst (run_calls as h) =
     map (\<lambda>a. case hand_cards h a of Inl e \<Rightarrow> Inl e
              | Inr cards \<Rightarrow> evaluatePokerHand_js cards) as \<and>
   fst (run_calls as h) = map (\<lambda>a. fst (evaluatePokerHand_exec a h)) as \<and>
   take (length h) (snd (run_calls as h)) = h \<and>
   (\<forall>a1 h1 a2 h2. hand_cards h1 a1 = hand_cards h2 a2 \<longrightarrow>
      fst (evaluatePokerHand_exec a1 h1) = fst (evaluatePokerHand_exec a2 h2))"
proof -
  assume r: "list_all (refs_in_store h) as"
  have p: "fst (run_calls as h) =
     map (\<lambda>a. case hand_cards h a of Inl e \<Rightarrow> Inl e
              | Inr cards \<Rightarrow> evaluatePokerHand_js cards) as"
    using run_calls_pure [OF r, of "[]"] by simp
  have q: "fst (run_calls as h) = map (\<lambda>a. fst (evaluatePokerHand_exec a h)) as"
    by (simp only: p exec_result)
  obtain fresh where f: "snd (run_calls as (h @ [])) = h @ fresh"
    using run_calls_pure [OF r, of "[]"] by blast
  have t: "take (length h) (snd (run_calls as h)) = h" using f by simp
  have d: "\<forall>a1 h1 a2 h2. hand_cards h1 a1 = hand_cards h2 a2 \<longrightarrow>
      fst (evaluatePokerHand_exec a1 h1) = fst (evaluatePokerHand_exec a2 h2)"
  proof (intro allI impI)
    fix a1 h1 a2 h2
    assume "hand_cards h1 a1 = hand_cards h2 a2"
    then show "fst (evaluatePokerHand_exec a1 h1) = fst (evaluatePokerHand_exec a2 h2)"
      by (simp only: exec_result)
  qed
  show ?thesis using p q t d by (intro conjI)
qed

theorem calls_are_pure_witness:
  "list_all (refs_in_store example_store) [5, 6, 5] \<and>
   fst (run_calls [5, 6, 5] example_store) =
     [Inr ''straight'', Inr ''fullhouse'', Inr ''straight''] \<and>
   take (length example_store) (snd (run_calls [5, 6, 5] example_store)) = example_store \<and>
   hand_cards other_store 0 = hand_cards example_store 5 \<and>
   fst (evaluatePokerHand_exec 0 other_store) = fst (evaluatePokerHand_exec 5 example_store)"
proof -
  have a: "list_all (refs_in_store example_store) [5, 6, 5]" by code_simp
  have b: "map (\<lambda>a. case hand_cards example_store a of Inl e \<Rightarrow> Inl e
              | Inr cards \<Rightarrow> evaluatePokerHand_js cards) [5, 6, 5] =
     [Inr ''straight'', Inr ''fullhouse'', Inr ''straight'']" by code_simp
  have c: "hand_cards other_store 0 = hand_cards example_store 5" by code_simp
  note t = calls_are_pure [OF a]
  have r: "fst (run_calls [5, 6, 5] example_store) =
     [Inr ''straight'', Inr ''fullhouse'', Inr ''straight'']"
    using t [THEN conjunct1] b by simp
  have f: "take (length example_store) (snd (run_calls [5, 6, 5] example_store)) = example_store"
    using t [THEN conjunct2, THEN conjunct2, THEN conjunct1] .
  have d: "fst (evaluatePokerHand_exec 0 other_store) = fst (evaluatePokerHand_exec 5 example_store)"
    using t [THEN conjunct2, THEN conjunct2, THEN conjunct2, rule_format, OF c] .
  show ?thesis using a r f c d by (intro conjI)
qed

text \<open>
  C9. The category is invariant under reordering the hand: two hands with the same cards
  in any order get the same category.
\<close>

theorem permutation_invariance:
  "mset h1 = mset h2 \<Longrightarrow> evaluatePokerHand h1 = evaluatePokerHand h2"
proof -
  assume m: "mset h1 = mset h2"
  have "set (suits h1) = set (suits h2)" using m by (rule suits_cong_mset)
  then have f: "isFlush h1 = isFlush h2" by (simp add: isFlush_iff)
  have "mset (ranks h1) = mset (ranks h2)" using m by (rule ranks_cong_mset)
  then show ?thesis using f by (rule evaluate_cong)
qed

theorem permutation_invariance_witness:
  "mset sevens_last = mset four_sevens \<and>
   rankCounts four_sevens = [(7, 4), (2, 1)] \<and> rankCounts sevens_last = [(2, 1), (7, 4)] \<and>
   evaluatePokerHand four_sevens = ''fourofakind'' \<and>
   evaluatePokerHand sevens_last = ''fourofakind''"
proof -
  have m: "mset sevens_last = mset four_sevens"
    by (simp add: sevens_last_def four_sevens_def)
  have a: "rankCounts four_sevens = [(7, 4), (2, 1)]" by code_simp
  have b: "rankCounts sevens_last = [(2, 1), (7, 4)]" by code_simp
  have e: "evaluatePokerHand four_sevens = ''fourofakind''" by code_simp
  show ?thesis using m a b e permutation_invariance [OF m] by simp
qed

text \<open>
  C10. The category depends only on the multiset of ranks and on whether all suits agree
  after lowercasing: two hands that agree in both get the same category.
\<close>

theorem category_from_ranks_and_flush:
  "mset (map rank h1) = mset (map rank h2) \<Longrightarrow> spec_all_suits_equal h1 = spec_all_suits_equal h2 \<Longrightarrow>
   evaluatePokerHand h1 = evaluatePokerHand h2"
proof -
  assume r: "mset (map rank h1) = mset (map rank h2)"
    and s: "spec_all_suits_equal h1 = spec_all_suits_equal h2"
  have f: "isFlush h1 = isFlush h2" using s by (simp add: isFlush_suits_all_equal)
  have "mset (ranks h1) = mset (ranks h2)" using r by (simp add: ranks_def)
  then show ?thesis using f by (rule evaluate_cong)
qed

theorem category_from_ranks_and_flush_witness:
  "mset (map rank wheel_other_suits) = mset (map rank wheel_mixed) \<and>
   spec_all_suits_equal wheel_other_suits = spec_all_suits_equal wheel_mixed \<and>
   evaluatePokerHand wheel_other_suits = ''straight''"
proof -
  have r: "mset (map rank wheel_other_suits) = mset (map rank wheel_mixed)"
    by (simp add: wheel_other_suits_def wheel_mixed_def mk_card_def)
  have s: "spec_all_suits_equal wheel_other_suits = spec_all_suits_equal wheel_mixed" by code_simp
  have e: "evaluatePokerHand wheel_mixed = ''straight''" by code_simp
  show ?thesis using r s e category_from_ranks_and_flush [OF r s] by simp
qed

end
